theory Spec2Isabelle
  imports Main "HOL-Library.Word"
begin

unbundle bit_operations_syntax

section \<open>Length-prefixed framing of the redis-scratch client and server\<close>

text \<open>
  The server (\<^verbatim>\<open>one_request\<close>, \<^verbatim>\<open>main\<close>) and the client (\<^verbatim>\<open>query\<close>, \<^verbatim>\<open>main\<close>)
  share \<^verbatim>\<open>read_full\<close> and \<^verbatim>\<open>write_full\<close>. The model makes explicit what the Go
  code leaves to the runtime and the kernel: the backing array of a byte slice, the
  bounds check of a slice expression, and the results of the \<^verbatim>\<open>read\<close> and
  \<^verbatim>\<open>write\<close> system calls.
\<close>

subsection \<open>Data\<close>

type_synonym byte = "8 word"
type_synonym uint32 = "32 word"
type_synonym errno = nat

text \<open>\<^verbatim>\<open>const kMaxMsg = 4096\<close>\<close>

definition kMaxMsg :: nat where
  "kMaxMsg = 4096"

text \<open>
  The errors the functions build with \<^verbatim>\<open>fmt.Errorf\<close>, one constructor per format
  string, and the lines they print on standard output.
\<close>

datatype error =
    ReadError errno            \<comment> \<open>\<^verbatim>\<open>Error reading from socket: %v\<close>\<close>
  | EOFError                   \<comment> \<open>\<^verbatim>\<open>EOF reading from socket\<close>\<close>
  | WriteError errno           \<comment> \<open>\<^verbatim>\<open>Error writing to socket: %v\<close>\<close>
  | WriteZero                  \<comment> \<open>\<^verbatim>\<open>write returned 0, unexpected\<close>\<close>
  | MessageTooLong uint32      \<comment> \<open>server: \<^verbatim>\<open>message too long: %d\<close>\<close>
  | RequestTooLong             \<comment> \<open>client: \<^verbatim>\<open>message too long\<close>\<close>
  | WriteAllError error        \<comment> \<open>client: \<^verbatim>\<open>write_all error: %v\<close>\<close>
  | ResponseTooLong uint32     \<comment> \<open>client: \<^verbatim>\<open>response too long: %d\<close>\<close>

datatype stdout_line =
    OutHeaderError error       \<comment> \<open>server: \<^verbatim>\<open>Error reading from socket:\<close> err\<close>
  | OutTooLong                 \<comment> \<open>\<^verbatim>\<open>too long\<close>\<close>
  | OutReadError error         \<comment> \<open>\<^verbatim>\<open>read() error:\<close> err\<close>
  | OutClientSays "byte list"  \<comment> \<open>\<^verbatim>\<open>client says: %s\<close>\<close>
  | OutWriteError error        \<comment> \<open>\<^verbatim>\<open>write_all() error:\<close> err\<close>
  | OutServerSays "byte list"  \<comment> \<open>\<^verbatim>\<open>server says: %s\<close>\<close>
  | OutAcceptError errno       \<comment> \<open>server: \<^verbatim>\<open>Error accepting connection: %v\<close>\<close>
  | OutAccepted                \<comment> \<open>server: \<^verbatim>\<open>Accepted connection from %v\<close>\<close>
  | OutConnectionClosed        \<comment> \<open>client: \<^verbatim>\<open>Connection closed\<close>\<close>

text \<open>A run-time panic of the Go runtime ends the process; it is not an \<^verbatim>\<open>error\<close> value.\<close>

datatype panic = SliceBoundsOutOfRange | IndexOutOfRange

subsection \<open>The stream endpoint\<close>

text \<open>
  What the kernel does at each call is a parameter of the model. \<open>rx\<close> lists what the
  successive \<^verbatim>\<open>read\<close> calls find: a chunk of bytes that has arrived, or a failure. A
  read takes at most one chunk, and at most as many bytes as its buffer holds; what it
  leaves of the chunk stays first in line. When nothing is left the peer has closed the
  stream and a read returns 0. \<open>wr\<close> lists how the successive \<^verbatim>\<open>write\<close> calls
  behave: the kernel takes at most so many bytes, or fails; when the list is used up it
  takes all it is offered. \<open>tx\<close> collects the bytes the kernel took, \<open>calls\<close> records
  every system call issued, \<open>out\<close> is standard output.
\<close>

datatype rd_event = RdData "byte list" | RdFail errno
datatype wr_event = WrTake nat | WrFail errno
datatype io_call = ReadCall nat | WriteCall "byte list"

record world =
  rx :: "rd_event list"
  wr :: "wr_event list"
  tx :: "byte list"
  calls :: "io_call list"
  out :: "stdout_line list"

text \<open>\<^verbatim>\<open>syscall.Read(fd, p)\<close> with \<open>c = len(p)\<close>: the bytes stored at the start of \<open>p\<close>.\<close>

definition sys_read :: "world \<Rightarrow> nat \<Rightarrow> (errno + byte list) \<times> world" where
  "sys_read w c =
     (let w' = w\<lparr>calls := calls w @ [ReadCall c]\<rparr> in
      case rx w of
        [] \<Rightarrow> (Inr [], w')
      | RdFail e # rest \<Rightarrow> (Inl e, w'\<lparr>rx := rest\<rparr>)
      | RdData d # rest \<Rightarrow>
          (Inr (take c d),
           w'\<lparr>rx := (if length d \<le> c then rest else RdData (drop c d) # rest)\<rparr>))"

text \<open>\<^verbatim>\<open>syscall.Write(fd, p)\<close> with \<open>bs\<close> the contents of \<open>p\<close>: the count written.\<close>

definition sys_write :: "world \<Rightarrow> byte list \<Rightarrow> (errno + nat) \<times> world" where
  "sys_write w bs =
     (let w' = w\<lparr>calls := calls w @ [WriteCall bs]\<rparr> in
      case wr w of
        [] \<Rightarrow> (Inr (length bs), w'\<lparr>tx := tx w @ bs\<rparr>)
      | WrFail e # rest \<Rightarrow> (Inl e, w'\<lparr>wr := rest\<rparr>)
      | WrTake k # rest \<Rightarrow>
          (Inr (min k (length bs)), w'\<lparr>wr := rest, tx := tx w @ take (min k (length bs)) bs\<rparr>))"

subsection \<open>Byte slices\<close>

text \<open>
  A slice is a window on a backing array: where it starts, its length and its capacity.
  The backing array is a list of bytes passed along with the slice.
\<close>

record slice =
  base :: nat
  slen :: nat
  scap :: nat

text \<open>\<^verbatim>\<open>make([]byte, n)\<close>: a zeroed array and the slice of all of it.\<close>

definition make_bytes :: "nat \<Rightarrow> byte list \<times> slice" where
  "make_bytes n = (replicate n 0, \<lparr>base = 0, slen = n, scap = n\<rparr>)"

text \<open>
  The slice expression \<^verbatim>\<open>s[lo:hi]\<close>. The Go runtime panics unless
  \<open>0 \<le> lo \<le> hi \<le> cap(s)\<close>.
\<close>

definition reslice :: "slice \<Rightarrow> int \<Rightarrow> int \<Rightarrow> panic + slice" where
  "reslice s lo hi =
     (if 0 \<le> lo \<and> lo \<le> hi \<and> hi \<le> int (scap s)
      then Inr \<lparr>base = base s + nat lo, slen = nat (hi - lo), scap = scap s - nat lo\<rparr>
      else Inl SliceBoundsOutOfRange)"

definition mem_read :: "byte list \<Rightarrow> slice \<Rightarrow> byte list" where
  "mem_read mem s = take (slen s) (drop (base s) mem)"

text \<open>Storing \<open>bs\<close> at the start of the slice \<open>s\<close> (the caller has \<open>length bs \<le> slen s\<close>).\<close>

definition mem_write :: "byte list \<Rightarrow> slice \<Rightarrow> byte list \<Rightarrow> byte list" where
  "mem_write mem s bs = take (base s) mem @ bs @ drop (base s + length bs) mem"

subsection \<open>\<^verbatim>\<open>read_full\<close> and \<^verbatim>\<open>write_full\<close>\<close>

text \<open>
  \<^verbatim>\<open>
  offset:=0
  for len > 0 {
      n, err:= syscall.Read(fd, buf[offset:len])
      if err != nil { return fmt.Errorf("Error reading from socket: %v", err) }
      if n==0 { return fmt.Errorf("EOF reading from socket") }
      offset+=n
      len-=n
  }
  return nil
  \<close>
  The loop, with \<open>offset\<close> and \<open>len\<close> as arguments. It returns a panic, or the
  returned error (\<open>None\<close> is \<^verbatim>\<open>nil\<close>) with the backing array and the world as the
  calls left them.
\<close>

function read_full_loop ::
  "world \<Rightarrow> byte list \<Rightarrow> slice \<Rightarrow> int \<Rightarrow> int \<Rightarrow> panic + (error option \<times> byte list \<times> world)"
where
  "read_full_loop w mem buf offset len =
     (if len > 0 then
        (case reslice buf offset len of
           Inl p \<Rightarrow> Inl p
         | Inr s \<Rightarrow>
             (case sys_read w (slen s) of
                (Inl e, w') \<Rightarrow> Inr (Some (ReadError e), mem, w')
              | (Inr bs, w') \<Rightarrow>
                  if int (length bs) = 0 then Inr (Some EOFError, mem, w')
                  else read_full_loop w' (mem_write mem s bs) buf
                         (offset + int (length bs)) (len - int (length bs))))
      else Inr (None, mem, w))"
  by pat_completeness auto
termination
  by (relation "measure (\<lambda>(w, mem, buf, offset, len). nat len)") auto

definition read_full ::
  "world \<Rightarrow> byte list \<Rightarrow> slice \<Rightarrow> int \<Rightarrow> panic + (error option \<times> byte list \<times> world)"
where
  "read_full w mem buf len = read_full_loop w mem buf 0 len"

text \<open>
  \<^verbatim>\<open>
  total:=len(buf)
  offset:=0
  for total > 0 {
      n, err:= syscall.Write(fd,buf[offset:total])
      if err!=nil { return fmt.Errorf("Error writing to socket: %v", err) }
      if n==0 { return fmt.Errorf("write returned 0, unexpected") }
      offset+=n
      total-=n
  }
  return nil
  \<close>
  The loop, with \<open>offset\<close> and \<open>total\<close> (here \<open>tot\<close>) as arguments.
\<close>

function write_full_loop ::
  "world \<Rightarrow> byte list \<Rightarrow> slice \<Rightarrow> int \<Rightarrow> int \<Rightarrow> panic + (error option \<times> world)"
where
  "write_full_loop w mem buf offset tot =
     (if tot > 0 then
        (case reslice buf offset tot of
           Inl p \<Rightarrow> Inl p
         | Inr s \<Rightarrow>
             (case sys_write w (mem_read mem s) of
                (Inl e, w') \<Rightarrow> Inr (Some (WriteError e), w')
              | (Inr n, w') \<Rightarrow>
                  if n = 0 then Inr (Some WriteZero, w')
                  else write_full_loop w' mem buf (offset + int n) (tot - int n)))
      else Inr (None, w))"
  by pat_completeness auto
termination
  by (relation "measure (\<lambda>(w, mem, buf, offset, tot). nat tot)") auto

definition write_full :: "world \<Rightarrow> byte list \<Rightarrow> slice \<Rightarrow> panic + (error option \<times> world)" where
  "write_full w mem buf = write_full_loop w mem buf 0 (int (slen buf))"

subsection \<open>Little-endian lengths and \<^verbatim>\<open>copy\<close>\<close>

text \<open>
  \<^verbatim>\<open>binary.LittleEndian.Uint32(b)\<close> and \<^verbatim>\<open>binary.LittleEndian.PutUint32(b, v)\<close>.
  Both touch \<^verbatim>\<open>b[3]\<close> first, so they panic on a slice shorter than 4.
\<close>

definition Uint32 :: "byte list \<Rightarrow> panic + uint32" where
  "Uint32 b =
     (if length b < 4 then Inl IndexOutOfRange
      else Inr (ucast (b ! 0) OR push_bit 8 (ucast (b ! 1)) OR
                push_bit 16 (ucast (b ! 2)) OR push_bit 24 (ucast (b ! 3))))"

definition le_bytes :: "uint32 \<Rightarrow> byte list" where
  "le_bytes v = [ucast v, ucast (drop_bit 8 v), ucast (drop_bit 16 v), ucast (drop_bit 24 v)]"

definition PutUint32 :: "byte list \<Rightarrow> slice \<Rightarrow> uint32 \<Rightarrow> panic + byte list" where
  "PutUint32 mem b v =
     (if slen b < 4 then Inl IndexOutOfRange else Inr (mem_write mem b (le_bytes v)))"

text \<open>\<^verbatim>\<open>copy(dst, src)\<close> copies as many bytes as the shorter of the two holds.\<close>

definition copy_bytes :: "byte list \<Rightarrow> slice \<Rightarrow> byte list \<Rightarrow> byte list" where
  "copy_bytes mem dst src = mem_write mem dst (take (slen dst) src)"

text \<open>A Go string is a sequence of bytes; a string literal gives the bytes of its characters.\<close>

definition bytes_of :: "string \<Rightarrow> byte list" where
  "bytes_of s = map of_char s"

subsection \<open>The server: \<^verbatim>\<open>one_request\<close>\<close>

text \<open>
  Steps 1 to 3 of \<^verbatim>\<open>one_request\<close>: read the 4-byte header into \<^verbatim>\<open>rbuf\<close>, decode the
  length, refuse one above \<^verbatim>\<open>kMaxMsg\<close>, read the body into \<^verbatim>\<open>rbuf[4:4+length]\<close>.
  The result is the error returned, or the bytes of \<^verbatim>\<open>rbuf[4:4+length]\<close> that the
  function goes on to print.
\<close>

definition one_request_recv :: "world \<Rightarrow> panic + ((error + byte list) \<times> world)" where
  "one_request_recv w =
     (let (rmem, rbuf) = make_bytes (4 + kMaxMsg) in
      case read_full w rmem rbuf 4 of
        Inl p \<Rightarrow> Inl p
      | Inr (Some err, rmem, w) \<Rightarrow> Inr (Inl err, w\<lparr>out := out w @ [OutHeaderError err]\<rparr>)
      | Inr (None, rmem, w) \<Rightarrow>
          (case reslice rbuf 0 4 of
             Inl p \<Rightarrow> Inl p
           | Inr hdr \<Rightarrow>
               (case Uint32 (mem_read rmem hdr) of
                  Inl p \<Rightarrow> Inl p
                | Inr length' \<Rightarrow>
                    if word_of_nat kMaxMsg < length'
                    then Inr (Inl (MessageTooLong length'), w\<lparr>out := out w @ [OutTooLong]\<rparr>)
                    else
                      (case reslice rbuf 4 (int (unat (4 + length'))) of
                         Inl p \<Rightarrow> Inl p
                       | Inr body \<Rightarrow>
                           (case read_full w rmem body (int (unat length')) of
                              Inl p \<Rightarrow> Inl p
                            | Inr (Some err, rmem, w) \<Rightarrow>
                                Inr (Inl err, w\<lparr>out := out w @ [OutReadError err]\<rparr>)
                            | Inr (None, rmem, w) \<Rightarrow> Inr (Inr (mem_read rmem body), w))))))"

text \<open>
  The write buffer of a frame, as both sides build it:
  \<^verbatim>\<open>
  wbuf := make([]byte, 4+replyLen)
  binary.LittleEndian.PutUint32(wbuf[:4], replyLen)
  copy(wbuf[4:], reply)
  \<close>
  with \<open>n\<close> the length as a \<^verbatim>\<open>uint32\<close> and \<open>sz\<close> the size given to \<^verbatim>\<open>make\<close>.
\<close>

definition frame_wbuf :: "nat \<Rightarrow> uint32 \<Rightarrow> byte list \<Rightarrow> panic + (byte list \<times> slice)" where
  "frame_wbuf sz n body =
     (let (wmem, wbuf) = make_bytes sz in
      case reslice wbuf 0 4 of
        Inl p \<Rightarrow> Inl p
      | Inr hdr \<Rightarrow>
          (case PutUint32 wmem hdr n of
             Inl p \<Rightarrow> Inl p
           | Inr wmem \<Rightarrow>
               (case reslice wbuf 4 (int (slen wbuf)) of
                  Inl p \<Rightarrow> Inl p
                | Inr rest \<Rightarrow> Inr (copy_bytes wmem rest body, wbuf))))"

text \<open>Step 4: the fixed reply, framed and written.\<close>

definition one_request_reply :: "world \<Rightarrow> panic + (error option \<times> world)" where
  "one_request_reply w =
     (let reply = bytes_of ''Hello world!!'';
          replyLen = (word_of_nat (length reply) :: uint32) in
      case frame_wbuf (unat (4 + replyLen)) replyLen reply of
        Inl p \<Rightarrow> Inl p
      | Inr (wmem, wbuf) \<Rightarrow>
          (case write_full w wmem wbuf of
             Inl p \<Rightarrow> Inl p
           | Inr (Some err, w) \<Rightarrow> Inr (Some err, w\<lparr>out := out w @ [OutWriteError err]\<rparr>)
           | Inr (None, w) \<Rightarrow> Inr (None, w)))"

definition one_request :: "world \<Rightarrow> panic + (error option \<times> world)" where
  "one_request w =
     (case one_request_recv w of
        Inl p \<Rightarrow> Inl p
      | Inr (Inl err, w) \<Rightarrow> Inr (Some err, w)
      | Inr (Inr msg, w) \<Rightarrow> one_request_reply (w\<lparr>out := out w @ [OutClientSays msg]\<rparr>))"

subsection \<open>The client: \<^verbatim>\<open>query\<close>\<close>

text \<open>
  The second half of \<^verbatim>\<open>query\<close>: read the response header into \<^verbatim>\<open>rbuf[:4]\<close>, decode
  and check the length, read the body into \<^verbatim>\<open>rbuf[4:4+replyLen]\<close>.
\<close>

definition query_recv :: "world \<Rightarrow> panic + ((error + byte list) \<times> world)" where
  "query_recv w =
     (let (rmem, rbuf) = make_bytes (4 + kMaxMsg + 1) in
      case reslice rbuf 0 4 of
        Inl p \<Rightarrow> Inl p
      | Inr hdr \<Rightarrow>
          (case read_full w rmem hdr 4 of
             Inl p \<Rightarrow> Inl p
           | Inr (Some err, rmem, w) \<Rightarrow> Inr (Inl err, w)
           | Inr (None, rmem, w) \<Rightarrow>
               (case Uint32 (mem_read rmem hdr) of
                  Inl p \<Rightarrow> Inl p
                | Inr replyLen \<Rightarrow>
                    if word_of_nat kMaxMsg < replyLen
                    then Inr (Inl (ResponseTooLong replyLen), w\<lparr>out := out w @ [OutTooLong]\<rparr>)
                    else
                      (case reslice rbuf 4 (int (unat (4 + replyLen))) of
                         Inl p \<Rightarrow> Inl p
                       | Inr body \<Rightarrow>
                           (case read_full w rmem body (int (unat replyLen)) of
                              Inl p \<Rightarrow> Inl p
                            | Inr (Some err, rmem, w) \<Rightarrow>
                                Inr (Inl err, w\<lparr>out := out w @ [OutReadError err]\<rparr>)
                            | Inr (None, rmem, w) \<Rightarrow> Inr (Inr (mem_read rmem body), w))))))"

text \<open>
  The first half of \<^verbatim>\<open>query\<close>: refuse a text above \<^verbatim>\<open>kMaxMsg\<close>, else frame it in
  \<^verbatim>\<open>wbuf\<close> and write it.
\<close>

definition query_send :: "world \<Rightarrow> byte list \<Rightarrow> panic + (error option \<times> world)" where
  "query_send w text' =
     (let length' = int (length text') in
      if length' > int kMaxMsg then Inr (Some RequestTooLong, w)
      else
        (case frame_wbuf (nat (4 + length')) (word_of_int length') text' of
           Inl p \<Rightarrow> Inl p
         | Inr (wmem, wbuf) \<Rightarrow>
             (case write_full w wmem wbuf of
                Inl p \<Rightarrow> Inl p
              | Inr (Some err, w) \<Rightarrow> Inr (Some (WriteAllError err), w)
              | Inr (None, w) \<Rightarrow> Inr (None, w))))"

definition query :: "world \<Rightarrow> byte list \<Rightarrow> panic + (error option \<times> world)" where
  "query w text' =
     (case query_send w text' of
        Inl p \<Rightarrow> Inl p
      | Inr (Some err, w) \<Rightarrow> Inr (Some err, w)
      | Inr (None, w) \<Rightarrow>
          (case query_recv w of
             Inl p \<Rightarrow> Inl p
           | Inr (Inl err, w) \<Rightarrow> Inr (Some err, w)
           | Inr (Inr msg, w) \<Rightarrow> Inr (None, w\<lparr>out := out w @ [OutServerSays msg]\<rparr>)))"

subsection \<open>The accept loop of the server and the session of the client\<close>

text \<open>
  What a process does with its endpoints is recorded as a trace: the \<^verbatim>\<open>accept\<close> and
  \<^verbatim>\<open>close\<close> system calls with the file descriptor they return or take, and the calls
  of \<^verbatim>\<open>one_request\<close> and \<^verbatim>\<open>query\<close> with their returns. The kernel may give a later
  connection the number of a descriptor closed before, so an endpoint is a position in
  the trace, not a number.
\<close>

datatype proc_event =
    SysAccept nat
  | SysClose nat
  | OneRequestCall nat
  | OneRequestReturn nat "error option"
  | QueryCall nat
  | QueryReturn nat "error option"

text \<open>
  How a run ends: the function returns, the process is left waiting in \<^verbatim>\<open>accept\<close>
  with no connection to come, or a panic ends the process.
\<close>

datatype run_end = Returned | Blocked | Panicked panic

record conn =
  connfd :: nat
  conn_rx :: "rd_event list"
  conn_wr :: "wr_event list"

record proc =
  trace :: "proc_event list"
  stdout :: "stdout_line list"

text \<open>
  The loop at the end of the server's \<^verbatim>\<open>main\<close>, over the results of the successive
  \<^verbatim>\<open>accept\<close> calls (an error, or a connection and how its reads and writes will go):
  \<^verbatim>\<open>
  for {
      connfd, sa, err := syscall.Accept(fd)
      if err != nil { fmt.Printf("Error accepting connection: %v\n", err); return }
      fmt.Printf("Accepted connection from %v\n", sa)
      one_request(connfd)
      syscall.Close(connfd)
  }
  \<close>
\<close>

fun accept_loop :: "(errno + conn) list \<Rightarrow> proc \<Rightarrow> run_end \<times> proc" where
  "accept_loop [] p = (Blocked, p)"
| "accept_loop (Inl e # evs) p = (Returned, p\<lparr>stdout := stdout p @ [OutAcceptError e]\<rparr>)"
| "accept_loop (Inr c # evs) p =
     (let p = p\<lparr>trace := trace p @ [SysAccept (connfd c)],
                stdout := stdout p @ [OutAccepted]\<rparr>;
          p = p\<lparr>trace := trace p @ [OneRequestCall (connfd c)]\<rparr>
      in case one_request \<lparr>rx = conn_rx c, wr = conn_wr c, tx = [], calls = [], out = stdout p\<rparr> of
           Inl pn \<Rightarrow> (Panicked pn, p)
         | Inr (err, w) \<Rightarrow>
             accept_loop evs
               (p\<lparr>trace := trace p @ [OneRequestReturn (connfd c) err, SysClose (connfd c)],
                  stdout := out w\<rparr>))"

text \<open>
  The end of the client's \<^verbatim>\<open>main\<close>, once \<^verbatim>\<open>connect\<close> has succeeded:
  \<^verbatim>\<open>
  query(fd, "PING")
  syscall.Close(fd)
  fmt.Println("Connection closed")
  \<close>
\<close>

definition client_session :: "conn \<Rightarrow> proc \<Rightarrow> run_end \<times> proc" where
  "client_session c p =
     (let p = p\<lparr>trace := trace p @ [QueryCall (connfd c)]\<rparr> in
      case query \<lparr>rx = conn_rx c, wr = conn_wr c, tx = [], calls = [], out = stdout p\<rparr>
             (bytes_of ''PING'') of
        Inl pn \<Rightarrow> (Panicked pn, p)
      | Inr (err, w) \<Rightarrow>
          (Returned,
           p\<lparr>trace := trace p @ [QueryReturn (connfd c) err, SysClose (connfd c)],
             stdout := out w @ [OutConnectionClosed]\<rparr>))"

subsection \<open>Notions of the specification\<close>

text \<open>
  The frame of the specification: the length of the message as 4 bytes, unsigned and
  little-endian, followed by the bytes of the message.
\<close>

definition spec_encodeFrame :: "byte list \<Rightarrow> byte list" where
  "spec_encodeFrame m = le_bytes (word_of_nat (length m)) @ m"

text \<open>
  The descriptors of the connections the accept loop takes before the first failing
  \<^verbatim>\<open>accept\<close>, the trace of one exchange that returned, and the trace of the exchange
  a panic cut short.
\<close>

fun accepted :: "(errno + conn) list \<Rightarrow> nat list" where
  "accepted [] = []"
| "accepted (Inl e # evs) = []"
| "accepted (Inr c # evs) = connfd c # accepted evs"

fun exchange_trace :: "nat \<times> error option \<Rightarrow> proc_event list" where
  "exchange_trace (fd, err) =
     [SysAccept fd, OneRequestCall fd, OneRequestReturn fd err, SysClose fd]"

fun cut_short :: "run_end \<Rightarrow> nat list \<Rightarrow> proc_event list" where
  "cut_short (Panicked pn) (fd # fds) = [SysAccept fd, OneRequestCall fd]"
| "cut_short fin fds = []"

section \<open>Properties\<close>

subsection \<open>One read or write that transfers everything\<close>

lemma read_full_nonpos: "len \<le> 0 \<Longrightarrow> read_full w mem buf len = Inr (None, mem, w)"
  by (simp add: read_full_def)

lemma read_full_whole:
  assumes "0 < n" "n \<le> scap buf" "rx w = RdData d # rest" "n \<le> length d"
  shows "read_full w mem buf (int n) =
         Inr (None, mem_write mem buf (take n d),
              w\<lparr>calls := calls w @ [ReadCall n],
                rx := (if length d \<le> n then rest else RdData (drop n d) # rest)\<rparr>)"
  using assms
  by (simp add: read_full_def reslice_def sys_read_def mem_write_def min_absorb2)

lemma write_full_empty: "slen buf = 0 \<Longrightarrow> write_full w mem buf = Inr (None, w)"
  by (simp add: write_full_def)

lemma write_full_whole:
  assumes "0 < slen buf" "slen buf \<le> scap buf" "wr w = []" "base buf + slen buf \<le> length mem"
  shows "write_full w mem buf =
         Inr (None, w\<lparr>calls := calls w @ [WriteCall (mem_read mem buf)],
                      tx := tx w @ mem_read mem buf\<rparr>)"
  using assms
  by (simp add: write_full_def reslice_def sys_write_def mem_read_def min_absorb2)

lemma Uint32_le_bytes: "Uint32 (le_bytes v) = Inr v"
  unfolding Uint32_def le_bytes_def
proof (simp, rule bit_word_eqI)
  fix n :: nat
  assume "n < LENGTH(32)"
  then have n: "n < 32" by simp
  have le: "n < 24 \<or> 24 + (n - 24) = n" by arith
  show "bit (ucast (ucast v :: byte) OR push_bit 8 (ucast (ucast (drop_bit 8 v) :: byte)) OR
          push_bit 16 (ucast (ucast (drop_bit 16 v) :: byte)) OR
          push_bit 24 (ucast (ucast (drop_bit 24 v) :: byte)) :: uint32) n = bit v n"
    using n le by (auto simp add: bit_simps)
qed

lemma read_full_first:
  assumes "0 < len" "nat len \<le> scap buf" "rx w = RdData d # rest" "nat len \<le> length d"
  shows "read_full w mem buf len =
         Inr (None, mem_write mem buf (take (nat len) d),
              w\<lparr>calls := calls w @ [ReadCall (nat len)],
                rx := (if length d \<le> nat len then rest else RdData (drop (nat len) d) # rest)\<rparr>)"
  using read_full_whole [of "nat len" buf w d rest mem] assms by simp

lemma read_full_eof:
  assumes "0 < len" "nat len \<le> scap buf" "rx w = []"
  shows "read_full w mem buf len = Inr (Some EOFError, mem, w\<lparr>calls := calls w @ [ReadCall (nat len)]\<rparr>)"
  using assms by (simp add: read_full_def reslice_def sys_read_def)

subsection \<open>Lengths as 32-bit words\<close>

lemma unat_len: "n \<le> kMaxMsg \<Longrightarrow> unat (word_of_nat n :: uint32) = n"
  by (rule of_nat_inverse [OF refl]) (simp add: kMaxMsg_def)

lemma unat_len4: "n \<le> kMaxMsg \<Longrightarrow> unat (4 + word_of_nat n :: uint32) = 4 + n"
proof -
  assume "n \<le> kMaxMsg"
  then have "4 + n < 2 ^ 32" by (simp add: kMaxMsg_def)
  then have "unat (word_of_nat (4 + n) :: uint32) = 4 + n"
    by (intro of_nat_inverse [OF refl]) simp
  then show ?thesis by simp
qed

lemma length_le_bytes: "length (le_bytes v) = 4"
  by (simp add: le_bytes_def)

lemma uint_len4: "n \<le> kMaxMsg \<Longrightarrow> uint (4 + word_of_nat n :: uint32) = 4 + int n"
  using unat_len4 [of n] by (metis of_nat_add of_nat_numeral uint_nat)

lemma uint_plus4: "unat (v :: uint32) \<le> kMaxMsg \<Longrightarrow> uint (4 + v) = 4 + int (unat v)"
  using uint_len4 [of "unat v"] by simp

lemma too_long_iff: "(word_of_nat kMaxMsg < (v :: uint32)) = (kMaxMsg < unat v)"
  by (simp add: word_less_nat_alt unat_len)

subsection \<open>The backing array after a read\<close>

lemma mem_read_header:
  assumes "length h = 4" "4 \<le> length mem"
  shows "mem_read (mem_write mem \<lparr>base = 0, slen = a, scap = b\<rparr> h) \<lparr>base = 0, slen = 4, scap = c\<rparr> = h"
  using assms by (simp add: mem_read_def mem_write_def)

lemma mem_read_body:
  assumes "4 + length m \<le> length mem"
  shows "mem_read (mem_write mem \<lparr>base = 4, slen = a, scap = b\<rparr> m) \<lparr>base = 4, slen = length m, scap = c\<rparr> = m"
  using assms by (simp add: mem_read_def mem_write_def)

lemma length_mem_write:
  "base s + length bs \<le> length mem \<Longrightarrow> length (mem_write mem s bs) = length mem"
  by (simp add: mem_write_def)

subsection \<open>Decoding once the header has arrived in one piece\<close>

lemma one_request_recv_header:
  assumes rx: "rx w = RdData (le_bytes v @ extra) # rest"
  shows "one_request_recv w =
     (if kMaxMsg < unat v
      then Inr (Inl (MessageTooLong v),
                w\<lparr>calls := calls w @ [ReadCall 4],
                  rx := (if extra = [] then rest else RdData extra # rest),
                  out := out w @ [OutTooLong]\<rparr>)
      else
        (case read_full
                (w\<lparr>calls := calls w @ [ReadCall 4],
                   rx := (if extra = [] then rest else RdData extra # rest)\<rparr>)
                (mem_write (replicate (4 + kMaxMsg) 0)
                   \<lparr>base = 0, slen = 4 + kMaxMsg, scap = 4 + kMaxMsg\<rparr> (le_bytes v))
                \<lparr>base = 4, slen = unat v, scap = kMaxMsg\<rparr> (int (unat v)) of
           Inl p \<Rightarrow> Inl p
         | Inr (Some err, rmem, w) \<Rightarrow> Inr (Inl err, w\<lparr>out := out w @ [OutReadError err]\<rparr>)
         | Inr (None, rmem, w) \<Rightarrow>
             Inr (Inr (mem_read rmem \<lparr>base = 4, slen = unat v, scap = kMaxMsg\<rparr>), w)))"
proof -
  let ?h = "le_bytes v"
  let ?mem = "replicate (4 + kMaxMsg) (0::byte)"
  let ?rbuf = "\<lparr>base = 0, slen = 4 + kMaxMsg, scap = 4 + kMaxMsg\<rparr>"
  let ?w1 = "w\<lparr>calls := calls w @ [ReadCall 4],
               rx := (if extra = [] then rest else RdData extra # rest)\<rparr>"
  let ?mem1 = "mem_write ?mem ?rbuf ?h"
  have h4: "length ?h = 4" by (rule length_le_bytes)
  have hdr: "read_full w ?mem ?rbuf 4 = Inr (None, ?mem1, ?w1)"
    using read_full_first [of 4 ?rbuf w "?h @ extra" rest ?mem] rx h4 by auto
  have rd: "mem_read ?mem1 \<lparr>base = 0, slen = 4, scap = 4 + kMaxMsg\<rparr> = ?h"
    using h4 by (intro mem_read_header) simp_all
  show ?thesis
  proof (cases "kMaxMsg < unat v")
    case True
    then show ?thesis
      unfolding one_request_recv_def make_bytes_def
      by (simp add: hdr reslice_def rd Uint32_le_bytes too_long_iff del: replicate_add)
  next
    case False
    then have le: "unat v \<le> kMaxMsg" by simp
    have le': "uint v \<le> int kMaxMsg"
      unfolding uint_nat using le by (rule iffD2 [OF of_nat_le_iff])
    show ?thesis
      unfolding one_request_recv_def make_bytes_def
      using False le le'
      by (simp add: hdr reslice_def rd Uint32_le_bytes too_long_iff uint_plus4 del: replicate_add)
  qed
qed

lemma query_recv_header:
  assumes rx: "rx w = RdData (le_bytes v @ extra) # rest"
  shows "query_recv w =
     (if kMaxMsg < unat v
      then Inr (Inl (ResponseTooLong v),
                w\<lparr>calls := calls w @ [ReadCall 4],
                  rx := (if extra = [] then rest else RdData extra # rest),
                  out := out w @ [OutTooLong]\<rparr>)
      else
        (case read_full
                (w\<lparr>calls := calls w @ [ReadCall 4],
                   rx := (if extra = [] then rest else RdData extra # rest)\<rparr>)
                (mem_write (replicate (5 + kMaxMsg) 0)
                   \<lparr>base = 0, slen = 4, scap = 5 + kMaxMsg\<rparr> (le_bytes v))
                \<lparr>base = 4, slen = unat v, scap = Suc kMaxMsg\<rparr> (int (unat v)) of
           Inl p \<Rightarrow> Inl p
         | Inr (Some err, rmem, w) \<Rightarrow> Inr (Inl err, w\<lparr>out := out w @ [OutReadError err]\<rparr>)
         | Inr (None, rmem, w) \<Rightarrow>
             Inr (Inr (mem_read rmem \<lparr>base = 4, slen = unat v, scap = Suc kMaxMsg\<rparr>), w)))"
proof -
  let ?h = "le_bytes v"
  let ?mem = "replicate (5 + kMaxMsg) (0::byte)"
  let ?hdr = "\<lparr>base = 0, slen = 4, scap = 5 + kMaxMsg\<rparr>"
  let ?w1 = "w\<lparr>calls := calls w @ [ReadCall 4],
               rx := (if extra = [] then rest else RdData extra # rest)\<rparr>"
  let ?mem1 = "mem_write ?mem ?hdr ?h"
  have h4: "length ?h = 4" by (rule length_le_bytes)
  have hdr: "read_full w ?mem ?hdr 4 = Inr (None, ?mem1, ?w1)"
    using read_full_first [of 4 ?hdr w "?h @ extra" rest ?mem] rx h4 by auto
  have rd: "mem_read ?mem1 ?hdr = ?h"
    using h4 by (intro mem_read_header) simp_all
  show ?thesis
  proof (cases "kMaxMsg < unat v")
    case True
    then show ?thesis
      unfolding query_recv_def make_bytes_def
      by (simp add: hdr reslice_def rd Uint32_le_bytes too_long_iff del: replicate_add)
  next
    case False
    then have le: "unat v \<le> kMaxMsg" by simp
    have le': "uint v \<le> int kMaxMsg"
      unfolding uint_nat using le by (rule iffD2 [OF of_nat_le_iff])
    show ?thesis
      unfolding query_recv_def make_bytes_def
      using False le le'
      by (simp add: hdr reslice_def rd Uint32_le_bytes too_long_iff uint_plus4 del: replicate_add)
  qed
qed

subsection \<open>The trace of the accept loop and of the client session\<close>

lemma accept_loop_trace:
  "accept_loop evs p = (fin, p') \<Longrightarrow>
   \<exists>errs. length errs \<le> length (accepted evs) \<and>
     trace p' = trace p @ concat (map exchange_trace (zip (accepted evs) errs)) @
                cut_short fin (drop (length errs) (accepted evs)) \<and>
     (length errs = length (accepted evs)) = (\<forall>pn. fin \<noteq> Panicked pn)"
proof (induction evs arbitrary: p)
  case Nil
  then show ?case by auto
next
  case (Cons ev evs)
  show ?case
  proof (cases ev)
    case (Inl e)
    with Cons.prems show ?thesis by auto
  next
    case (Inr c)
    let ?p1 = "p\<lparr>trace := trace p @ [SysAccept (connfd c), OneRequestCall (connfd c)],
                 stdout := stdout p @ [OutAccepted]\<rparr>"
    let ?w = "\<lparr>rx = conn_rx c, wr = conn_wr c, tx = [], calls = [], out = stdout ?p1\<rparr>"
    show ?thesis
    proof (cases "one_request ?w")
      case (Inl pn)
      with Cons.prems Inr have "fin = Panicked pn" "trace p' = trace ?p1"
        by (auto simp: Let_def)
      then show ?thesis using Inr
        by (intro exI [of _ "[]"]) simp
    next
      case r: (Inr res)
      obtain err w where res: "res = (err, w)" by (cases res)
      let ?p2 = "?p1\<lparr>trace := trace ?p1 @ [OneRequestReturn (connfd c) err, SysClose (connfd c)],
                    stdout := out w\<rparr>"
      from Cons.prems Inr r res have "accept_loop evs ?p2 = (fin, p')"
        by (simp add: Let_def)
      from Cons.IH [OF this] obtain errs where
        e: "length errs \<le> length (accepted evs)"
           "trace p' = trace ?p2 @ concat (map exchange_trace (zip (accepted evs) errs)) @
                cut_short fin (drop (length errs) (accepted evs))"
           "(length errs = length (accepted evs)) = (\<forall>pn. fin \<noteq> Panicked pn)"
        by blast
      show ?thesis using e Inr
        by (intro exI [of _ "err # errs"]) simp
    qed
  qed
qed

lemma client_session_trace:
  "client_session c p = (fin, p') \<Longrightarrow>
     (\<exists>pn. fin = Panicked pn \<and> trace p' = trace p @ [QueryCall (connfd c)]) \<or>
     (\<exists>err. fin = Returned \<and>
        trace p' = trace p @ [QueryCall (connfd c), QueryReturn (connfd c) err, SysClose (connfd c)])"
  by (auto simp: client_session_def Let_def split: sum.splits prod.splits)

subsection \<open>Frames written and read in one piece\<close>

lemma frame_wbuf_ok:
  "frame_wbuf (4 + length body) n body =
     Inr (le_bytes n @ body, \<lparr>base = 0, slen = 4 + length body, scap = 4 + length body\<rparr>)"
  by (simp add: frame_wbuf_def make_bytes_def reslice_def PutUint32_def copy_bytes_def
      mem_write_def le_bytes_def)

lemma query_send_whole:
  assumes "length m \<le> kMaxMsg" "wr w = []"
  shows "query_send w m =
         Inr (None, w\<lparr>calls := calls w @ [WriteCall (spec_encodeFrame m)],
                      tx := tx w @ spec_encodeFrame m\<rparr>)"
proof -
  let ?buf = "\<lparr>base = 0, slen = 4 + length m, scap = 4 + length m\<rparr>"
  have n: "nat (4 + int (length m)) = 4 + length m" by simp
  have fr: "frame_wbuf (nat (4 + int (length m))) (word_of_nat (length m)) m =
      Inr (spec_encodeFrame m, ?buf)"
    unfolding n by (simp add: frame_wbuf_ok spec_encodeFrame_def)
  have len: "length (spec_encodeFrame m) = 4 + length m"
    by (simp add: spec_encodeFrame_def length_le_bytes)
  have rd: "mem_read (spec_encodeFrame m) ?buf = spec_encodeFrame m"
    by (simp add: mem_read_def len)
  have wf: "write_full w (spec_encodeFrame m) ?buf =
      Inr (None, w\<lparr>calls := calls w @ [WriteCall (spec_encodeFrame m)],
                   tx := tx w @ spec_encodeFrame m\<rparr>)"
    using write_full_whole [of ?buf w "spec_encodeFrame m"] assms(2) len by (simp add: rd)
  show ?thesis
    unfolding query_send_def Let_def using assms(1) by (simp add: fr wf)
qed

lemma one_request_recv_frame:
  assumes m: "length m \<le> kMaxMsg"
    and rx: "rx w = RdData (spec_encodeFrame m @ extra) # rest"
  shows "one_request_recv w =
         Inr (Inr m,
              w\<lparr>calls := calls w @ ReadCall 4 # (if m = [] then [] else [ReadCall (length m)]),
                rx := (if extra = [] then rest else RdData extra # rest)\<rparr>)"
proof -
  let ?v = "word_of_nat (length m) :: uint32"
  let ?mem1 = "mem_write (replicate (4 + kMaxMsg) 0)
                 \<lparr>base = 0, slen = 4 + kMaxMsg, scap = 4 + kMaxMsg\<rparr> (le_bytes ?v)"
  let ?body = "\<lparr>base = 4, slen = length m, scap = kMaxMsg\<rparr>"
  have v: "unat ?v = length m" using m by (rule unat_len)
  have rx': "rx w = RdData (le_bytes ?v @ (m @ extra)) # rest"
    using rx by (simp add: spec_encodeFrame_def)
  have len1: "length ?mem1 = 4 + kMaxMsg"
    by (simp add: length_mem_write length_le_bytes)
  note hd = one_request_recv_header [OF rx', unfolded v]
  show ?thesis
  proof (cases "m = []")
    case True
    then show ?thesis using hd
      by (simp add: read_full_nonpos mem_read_def)
  next
    case False
    let ?w1 = "w\<lparr>calls := calls w @ [ReadCall 4], rx := RdData (m @ extra) # rest\<rparr>"
    have body: "read_full ?w1 ?mem1 ?body (int (length m)) =
        Inr (None, mem_write ?mem1 ?body m,
             w\<lparr>calls := calls w @ [ReadCall 4, ReadCall (length m)],
               rx := (if extra = [] then rest else RdData extra # rest)\<rparr>)"
      using read_full_first [of "int (length m)" ?body ?w1 "m @ extra" rest ?mem1] m False
      by simp
    have msg: "mem_read (mem_write ?mem1 ?body m) ?body = m"
      using m len1 by (simp add: mem_read_body)
    show ?thesis using hd False m by (simp add: body msg)
  qed
qed

lemma query_recv_frame:
  assumes m: "length m \<le> kMaxMsg"
    and rx: "rx w = RdData (spec_encodeFrame m @ extra) # rest"
  shows "query_recv w =
         Inr (Inr m,
              w\<lparr>calls := calls w @ ReadCall 4 # (if m = [] then [] else [ReadCall (length m)]),
                rx := (if extra = [] then rest else RdData extra # rest)\<rparr>)"
proof -
  let ?v = "word_of_nat (length m) :: uint32"
  let ?mem1 = "mem_write (replicate (5 + kMaxMsg) 0)
                 \<lparr>base = 0, slen = 4, scap = 5 + kMaxMsg\<rparr> (le_bytes ?v)"
  let ?body = "\<lparr>base = 4, slen = length m, scap = Suc kMaxMsg\<rparr>"
  have v: "unat ?v = length m" using m by (rule unat_len)
  have rx': "rx w = RdData (le_bytes ?v @ (m @ extra)) # rest"
    using rx by (simp add: spec_encodeFrame_def)
  have len1: "length ?mem1 = 5 + kMaxMsg"
    by (simp add: length_mem_write length_le_bytes)
  note hd = query_recv_header [OF rx', unfolded v]
  show ?thesis
  proof (cases "m = []")
    case True
    then show ?thesis using hd
      by (simp add: read_full_nonpos mem_read_def)
  next
    case False
    let ?w1 = "w\<lparr>calls := calls w @ [ReadCall 4], rx := RdData (m @ extra) # rest\<rparr>"
    have body: "read_full ?w1 ?mem1 ?body (int (length m)) =
        Inr (None, mem_write ?mem1 ?body m,
             w\<lparr>calls := calls w @ [ReadCall 4, ReadCall (length m)],
               rx := (if extra = [] then rest else RdData extra # rest)\<rparr>)"
      using read_full_first [of "int (length m)" ?body ?w1 "m @ extra" rest ?mem1] m False
      by simp
    have msg: "mem_read (mem_write ?mem1 ?body m) ?body = m"
      using m len1 by (simp add: mem_read_body)
    show ?thesis using hd False m by (simp add: body msg)
  qed
qed

lemma ping_bytes: "bytes_of ''PING'' = [0x50, 0x49, 0x4E, 0x47]"
  by (simp add: bytes_of_def)

lemma ping_frame: "spec_encodeFrame (bytes_of ''PING'') = [0x04, 0, 0, 0, 0x50, 0x49, 0x4E, 0x47]"
  by (simp add: spec_encodeFrame_def ping_bytes le_bytes_def)

lemma hello_bytes: "bytes_of ''Hello world!!'' =
   [0x48, 0x65, 0x6C, 0x6C, 0x6F, 0x20, 0x77, 0x6F, 0x72, 0x6C, 0x64, 0x21, 0x21]"
  by (simp add: bytes_of_def)

lemma hello_frame: "spec_encodeFrame (bytes_of ''Hello world!!'') =
   [0x0D, 0, 0, 0, 0x48, 0x65, 0x6C, 0x6C, 0x6F, 0x20, 0x77, 0x6F, 0x72, 0x6C, 0x64, 0x21, 0x21]"
  by (simp add: spec_encodeFrame_def hello_bytes le_bytes_def)

lemma one_request_reply_whole:
  assumes "wr w = []"
  shows "one_request_reply w =
     Inr (None, w\<lparr>calls := calls w @ [WriteCall (spec_encodeFrame (bytes_of ''Hello world!!''))],
                  tx := tx w @ spec_encodeFrame (bytes_of ''Hello world!!'')\<rparr>)"
proof -
  let ?reply = "bytes_of ''Hello world!!''"
  let ?buf = "\<lparr>base = 0, slen = 4 + length ?reply, scap = 4 + length ?reply\<rparr>"
  have len: "length ?reply \<le> kMaxMsg"
    by (simp add: bytes_of_def kMaxMsg_def)
  have sz: "unat (4 + word_of_nat (length ?reply) :: uint32) = 4 + length ?reply"
    using len by (rule unat_len4)
  have fr: "frame_wbuf (unat (4 + word_of_nat (length ?reply) :: uint32))
              (word_of_nat (length ?reply)) ?reply = Inr (spec_encodeFrame ?reply, ?buf)"
    unfolding sz by (simp only: frame_wbuf_ok spec_encodeFrame_def)
  have flen: "length (spec_encodeFrame ?reply) = 4 + length ?reply"
    by (simp add: spec_encodeFrame_def length_le_bytes)
  have rd: "mem_read (spec_encodeFrame ?reply) ?buf = spec_encodeFrame ?reply"
    by (simp only: mem_read_def slice.simps drop_0 flen [symmetric] take_all_iff order_refl)
  have wf: "write_full w (spec_encodeFrame ?reply) ?buf =
      Inr (None, w\<lparr>calls := calls w @ [WriteCall (spec_encodeFrame ?reply)],
                   tx := tx w @ spec_encodeFrame ?reply\<rparr>)"
    using write_full_whole [of ?buf w "spec_encodeFrame ?reply"] assms flen
    by (simp only: rd) simp
  show ?thesis
    unfolding one_request_reply_def Let_def
    by (simp only: fr wf sum.case prod.case option.case)
qed

lemma one_request_whole:
  assumes "length m \<le> kMaxMsg" "rx w = RdData (spec_encodeFrame m @ extra) # rest" "wr w = []"
  shows "one_request w =
     Inr (None,
          w\<lparr>calls := calls w @ ReadCall 4 # (if m = [] then [] else [ReadCall (length m)]) @
                       [WriteCall (spec_encodeFrame (bytes_of ''Hello world!!''))],
            rx := (if extra = [] then rest else RdData extra # rest),
            tx := tx w @ spec_encodeFrame (bytes_of ''Hello world!!''),
            out := out w @ [OutClientSays m]\<rparr>)"
  unfolding one_request_def
  using assms(3)
  by (simp add: one_request_recv_frame [OF assms(1,2)] one_request_reply_whole)

lemma query_whole:
  assumes "length m \<le> kMaxMsg" "wr w = []"
    and "length r \<le> kMaxMsg" "rx w = RdData (spec_encodeFrame r @ extra) # rest"
  shows "query w m =
     Inr (None,
          w\<lparr>calls := calls w @ WriteCall (spec_encodeFrame m) # ReadCall 4 #
                       (if r = [] then [] else [ReadCall (length r)]),
            rx := (if extra = [] then rest else RdData extra # rest),
            tx := tx w @ spec_encodeFrame m,
            out := out w @ [OutServerSays r]\<rparr>)"
proof -
  let ?w1 = "w\<lparr>calls := calls w @ [WriteCall (spec_encodeFrame m)],
               tx := tx w @ spec_encodeFrame m\<rparr>"
  have rx1: "rx ?w1 = RdData (spec_encodeFrame r @ extra) # rest"
    using assms(4) by simp
  show ?thesis
    unfolding query_def
    by (simp add: query_send_whole [OF assms(1,2)] query_recv_frame [OF assms(3) rx1])
qed

lemma one_request_closed_stream:
  assumes "rx w = []"
  shows "one_request w =
     Inr (Some EOFError, w\<lparr>calls := calls w @ [ReadCall 4],
                            out := out w @ [OutHeaderError EOFError]\<rparr>)"
proof -
  have "read_full w (replicate (4 + kMaxMsg) 0)
          \<lparr>base = 0, slen = 4 + kMaxMsg, scap = 4 + kMaxMsg\<rparr> 4 =
        Inr (Some EOFError, replicate (4 + kMaxMsg) 0, w\<lparr>calls := calls w @ [ReadCall 4]\<rparr>)"
    using read_full_eof [of 4 "\<lparr>base = 0, slen = 4 + kMaxMsg, scap = 4 + kMaxMsg\<rparr>" w] assms
    by simp
  then show ?thesis
    unfolding one_request_def one_request_recv_def make_bytes_def
    by (simp del: replicate_add)
qed

lemma le_bytes_3: "le_bytes 3 = [3, 0, 0, 0]"
  by (simp add: le_bytes_def)

lemma one_request_body_eof:
  assumes "0 < unat v" and "unat v \<le> kMaxMsg" and "rx w = [RdData (le_bytes v)]"
  shows "one_request w =
         Inr (Some EOFError,
              w\<lparr>calls := calls w @ [ReadCall 4, ReadCall (unat v)], rx := [],
                out := out w @ [OutReadError EOFError]\<rparr>)"
proof -
  have rx: "rx w = RdData (le_bytes v @ []) # []" using assms(3) by simp
  let ?w1 = "w\<lparr>calls := calls w @ [ReadCall 4], rx := []\<rparr>"
  have pos: "0 < uint v"
    using assms(1) by (metis of_nat_0_less_iff uint_nat)
  have eof: "read_full ?w1 mem \<lparr>base = 4, slen = unat v, scap = kMaxMsg\<rparr> (uint v) =
      Inr (Some EOFError, mem,
           w\<lparr>calls := calls w @ [ReadCall 4, ReadCall (unat v)], rx := []\<rparr>)" for mem
    using read_full_eof [of "uint v" "\<lparr>base = 4, slen = unat v, scap = kMaxMsg\<rparr>" ?w1 mem]
      assms(2) pos by simp
  show ?thesis
    using one_request_recv_header [OF rx] assms(1,2)
    by (simp add: one_request_def eof)
qed

subsection \<open>After a partial transfer the loops cannot finish\<close>

text \<open>
  Once \<open>offset\<close> is positive, each round of either loop offers the bytes from
  \<open>offset\<close> up to the remaining count, so the count can never reach 0 exactly: the
  loop ends in an error or a panic.
\<close>

lemma sys_read_length: "sys_read w c = (Inr bs, w') \<Longrightarrow> length bs \<le> c"
  by (auto simp: sys_read_def Let_def split: list.splits rd_event.splits)

lemma sys_write_count: "sys_write w bs = (Inr n, w') \<Longrightarrow> n \<le> length bs"
  by (auto simp: sys_write_def Let_def split: list.splits wr_event.splits)

lemma read_full_loop_stuck:
  "0 < offset \<Longrightarrow> 0 < len \<Longrightarrow> read_full_loop w mem buf offset len \<noteq> Inr (None, mem', w')"
proof (induction w mem buf offset len rule: read_full_loop.induct)
  case (1 w mem buf offset len)
  show ?case
  proof (cases "reslice buf offset len")
    case (Inl p)
    with "1.prems" show ?thesis by simp
  next
    case (Inr s)
    then have s: "slen s = nat (len - offset)" "offset \<le> len"
      by (auto simp: reslice_def split: if_splits)
    obtain r w1 where rd: "sys_read w (slen s) = (r, w1)" by (cases "sys_read w (slen s)")
    show ?thesis
    proof (cases r)
      case (Inl e)
      with "1.prems" Inr rd show ?thesis by simp
    next
      case r: (Inr bs)
      show ?thesis
      proof (cases "bs = []")
        case True
        with "1.prems" Inr rd r show ?thesis by simp
      next
        case False
        from sys_read_length [OF rd [unfolded r]] s
        have le: "int (length bs) \<le> len - offset" by simp
        have pos: "0 < offset + int (length bs)" "0 < len - int (length bs)"
          using "1.prems" le by simp_all
        have "read_full_loop w1 (mem_write mem s bs) buf (offset + int (length bs))
                (len - int (length bs)) \<noteq> Inr (None, mem', w')"
          by (rule "1.IH" [OF "1.prems"(2) Inr _ _ _ pos]) (use rd r False in auto)
        then show ?thesis
          using "1.prems" Inr rd r False by simp
      qed
    qed
  qed
qed

lemma write_full_loop_stuck:
  "0 < offset \<Longrightarrow> 0 < tot \<Longrightarrow> write_full_loop w mem buf offset tot \<noteq> Inr (None, w')"
proof (induction w mem buf offset tot rule: write_full_loop.induct)
  case (1 w mem buf offset tot)
  show ?case
  proof (cases "reslice buf offset tot")
    case (Inl p)
    with "1.prems" show ?thesis by simp
  next
    case (Inr s)
    then have s: "slen s = nat (tot - offset)" "offset \<le> tot"
      by (auto simp: reslice_def split: if_splits)
    obtain r w1 where wr: "sys_write w (mem_read mem s) = (r, w1)"
      by (cases "sys_write w (mem_read mem s)")
    show ?thesis
    proof (cases r)
      case (Inl e)
      with "1.prems" Inr wr show ?thesis by simp
    next
      case r: (Inr n)
      show ?thesis
      proof (cases "n = 0")
        case True
        with "1.prems" Inr wr r show ?thesis by simp
      next
        case False
        have "n \<le> length (mem_read mem s)"
          using sys_write_count [OF wr [unfolded r]] .
        also have "\<dots> \<le> slen s" by (simp add: mem_read_def)
        finally have le: "int n \<le> tot - offset" using s by simp
        have pos: "0 < offset + int n" "0 < tot - int n"
          using "1.prems" le by simp_all
        have "write_full_loop w1 mem buf (offset + int n) (tot - int n) \<noteq> Inr (None, w')"
          by (rule "1.IH" [OF "1.prems"(2) Inr _ _ _ pos]) (use wr r False in auto)
        then show ?thesis
          using "1.prems" Inr wr r False by simp
      qed
    qed
  qed
qed

section \<open>The claims\<close>

text \<open>
  C1. Round trip. For a message \<open>m\<close> of at most \<^verbatim>\<open>kMaxMsg\<close> bytes, \<^verbatim>\<open>query\<close>
  puts on the wire the 4-byte little-endian length of \<open>m\<close> followed by \<open>m\<close>
  (when the kernel takes what it is offered), and a peer that finds exactly these bytes
  in its stream decodes \<open>m\<close> from them: the server in \<^verbatim>\<open>one_request\<close>, and the
  client's own response decoding as well. The decoder issues one read for the header and
  one for the body (none for an empty body) and leaves the stream empty.
\<close>

theorem frame_round_trip:
  assumes "length m \<le> kMaxMsg" and "wr wc = []" and "tx wc = []"
  shows "\<exists>wc'. query_send wc m = Inr (None, wc') \<and> tx wc' = spec_encodeFrame m \<and>
           (\<forall>ws. rx ws = [RdData (tx wc')] \<longrightarrow>
              one_request_recv ws =
                Inr (Inr m, ws\<lparr>calls := calls ws @ ReadCall 4 #
                                   (if m = [] then [] else [ReadCall (length m)]),
                                 rx := []\<rparr>) \<and>
              query_recv ws =
                Inr (Inr m, ws\<lparr>calls := calls ws @ ReadCall 4 #
                                   (if m = [] then [] else [ReadCall (length m)]),
                                 rx := []\<rparr>))"
proof (intro exI conjI allI impI)
  show "query_send wc m = Inr (None, wc\<lparr>calls := calls wc @ [WriteCall (spec_encodeFrame m)],
                      tx := tx wc @ spec_encodeFrame m\<rparr>)"
    using assms(1,2) by (rule query_send_whole)
  show "tx (wc\<lparr>calls := calls wc @ [WriteCall (spec_encodeFrame m)],
                      tx := tx wc @ spec_encodeFrame m\<rparr>) = spec_encodeFrame m"
    using assms(3) by simp
next
  fix ws :: world
  assume "rx ws = [RdData (tx (wc\<lparr>calls := calls wc @ [WriteCall (spec_encodeFrame m)],
                      tx := tx wc @ spec_encodeFrame m\<rparr>))]"
  then have rx: "rx ws = RdData (spec_encodeFrame m @ []) # []"
    using assms(3) by simp
  show "one_request_recv ws =
                Inr (Inr m, ws\<lparr>calls := calls ws @ ReadCall 4 #
                                   (if m = [] then [] else [ReadCall (length m)]),
                                 rx := []\<rparr>)"
    using one_request_recv_frame [OF assms(1) rx] by simp
  show "query_recv ws =
                Inr (Inr m, ws\<lparr>calls := calls ws @ ReadCall 4 #
                                   (if m = [] then [] else [ReadCall (length m)]),
                                 rx := []\<rparr>)"
    using query_recv_frame [OF assms(1) rx] by simp
qed

theorem frame_round_trip_witness:
  "\<exists>wc'. query_send \<lparr>rx = [], wr = [], tx = [], calls = [], out = []\<rparr> [1, 2, 3] = Inr (None, wc') \<and>
     tx wc' = [3, 0, 0, 0, 1, 2, 3] \<and>
     one_request_recv \<lparr>rx = [RdData (tx wc')], wr = [], tx = [], calls = [], out = []\<rparr> =
       Inr (Inr [1, 2, 3],
            \<lparr>rx = [], wr = [], tx = [], calls = [ReadCall 4, ReadCall 3], out = []\<rparr>)"
proof -
  have "length [1, 2, 3 :: byte] \<le> kMaxMsg" by (simp add: kMaxMsg_def)
  from frame_round_trip [OF this, of "\<lparr>rx = [], wr = [], tx = [], calls = [], out = []\<rparr>"]
  obtain wc' where
    a: "query_send \<lparr>rx = [], wr = [], tx = [], calls = [], out = []\<rparr> [1, 2, 3] = Inr (None, wc')"
    and b: "tx wc' = spec_encodeFrame [1, 2, 3]"
    and c: "\<forall>ws. rx ws = [RdData (tx wc')] \<longrightarrow>
              one_request_recv ws =
                Inr (Inr [1, 2, 3], ws\<lparr>calls := calls ws @ [ReadCall 4, ReadCall 3], rx := []\<rparr>)"
    by auto
  have d: "one_request_recv \<lparr>rx = [RdData (tx wc')], wr = [], tx = [], calls = [], out = []\<rparr> =
       Inr (Inr [1, 2, 3],
            \<lparr>rx = [], wr = [], tx = [], calls = [ReadCall 4, ReadCall 3], out = []\<rparr>)"
    using c [rule_format, of "\<lparr>rx = [RdData (tx wc')], wr = [], tx = [], calls = [], out = []\<rparr>"]
    by simp
  have e: "tx wc' = [3, 0, 0, 0, 1, 2, 3]"
    using b by (simp add: spec_encodeFrame_def le_bytes_3)
  show ?thesis using a d e by blast
qed

text \<open>
  C2. With the frame of \<^verbatim>\<open>PING\<close> arriving one byte per read, decoding is to give
  back the message. It does not: \<^verbatim>\<open>read_full\<close> asks for \<^verbatim>\<open>buf[0:4]\<close>, then
  \<^verbatim>\<open>buf[1:3]\<close>, then the empty \<^verbatim>\<open>buf[2:2]\<close>; the read into the empty slice
  returns 0 and \<^verbatim>\<open>read_full\<close> reports end of stream after two bytes of the header,
  with six bytes of the frame still waiting. Server and client decoding fail alike.
\<close>

theorem one_byte_chunks_break_decode:
  "one_request_recv
     \<lparr>rx = map (\<lambda>b. RdData [b]) [0x04, 0, 0, 0, 0x50, 0x49, 0x4E, 0x47],
        wr = [], tx = [], calls = [], out = []\<rparr> =
   Inr (Inl EOFError,
     \<lparr>rx = map (\<lambda>b. RdData [b])  [0, 0, 0x50, 0x49, 0x4E, 0x47],
        wr = [], tx = [], calls = [ReadCall 4, ReadCall 2, ReadCall 0],
        out = [OutHeaderError EOFError]\<rparr>) \<and>
   query_recv
     \<lparr>rx = map (\<lambda>b. RdData [b]) [0x04, 0, 0, 0, 0x50, 0x49, 0x4E, 0x47],
        wr = [], tx = [], calls = [], out = []\<rparr> =
   Inr (Inl EOFError,
     \<lparr>rx = map (\<lambda>b. RdData [b])  [0, 0, 0x50, 0x49, 0x4E, 0x47],
        wr = [], tx = [], calls = [ReadCall 4, ReadCall 2, ReadCall 0], out = []\<rparr>)"
  unfolding one_request_recv_def query_recv_def make_bytes_def
  by (simp add: read_full_def reslice_def sys_read_def del: replicate_add)

text \<open>
  C3. \<^verbatim>\<open>write_full\<close> is to go on writing until the whole buffer is sent, whatever
  part of it each write takes. It does not: each round offers \<^verbatim>\<open>buf[offset:total]\<close>,
  and \<open>total\<close> shrinks while \<open>offset\<close> grows. With a buffer of three bytes and a
  kernel that takes one byte at a time, the third slice is \<^verbatim>\<open>buf[2:1]\<close> and the
  runtime panics. With a buffer of two bytes the second slice is the empty
  \<^verbatim>\<open>buf[1:1]\<close>, the write of nothing returns 0, and \<^verbatim>\<open>write_full\<close> reports an
  unexpected zero with one byte never offered.
\<close>

theorem write_full_partial_write_panics:
  "write_full \<lparr>rx = [], wr = [WrTake 1, WrTake 1], tx = [], calls = [], out = []\<rparr>
     [7, 8, 9] \<lparr>base = 0, slen = 3, scap = 3\<rparr> = Inl SliceBoundsOutOfRange \<and>
   write_full \<lparr>rx = [], wr = [WrTake 1], tx = [], calls = [], out = []\<rparr>
     [7, 8] \<lparr>base = 0, slen = 2, scap = 2\<rparr> =
     Inr (Some WriteZero,
          \<lparr>rx = [], wr = [], tx = [7], calls = [WriteCall [7, 8], WriteCall []], out = []\<rparr>)"
  by (simp add: write_full_def reslice_def sys_write_def mem_read_def)

text \<open>
  C4. The length check. A frame that declares exactly \<^verbatim>\<open>kMaxMsg\<close> bytes is
  decoded, by the server and by the client: the body is read with one further read. A
  header that declares more than \<^verbatim>\<open>kMaxMsg\<close> makes \<^verbatim>\<open>one_request\<close> return its
  message-too-long error and the client's decoding its response-too-long error; the only
  system call issued is the read of the 4 header bytes, and whatever followed the header
  is still in the stream.
\<close>

theorem length_boundary:
  "(length m = kMaxMsg \<and> rx w = RdData (spec_encodeFrame m @ extra) # rest \<longrightarrow>
      one_request_recv w =
        Inr (Inr m, w\<lparr>calls := calls w @ [ReadCall 4, ReadCall kMaxMsg],
                       rx := (if extra = [] then rest else RdData extra # rest)\<rparr>) \<and>
      query_recv w =
        Inr (Inr m, w\<lparr>calls := calls w @ [ReadCall 4, ReadCall kMaxMsg],
                       rx := (if extra = [] then rest else RdData extra # rest)\<rparr>)) \<and>
   (kMaxMsg < unat v \<and> rx w = RdData (le_bytes v @ extra) # rest \<longrightarrow>
      one_request w =
        Inr (Some (MessageTooLong v),
             w\<lparr>calls := calls w @ [ReadCall 4],
               rx := (if extra = [] then rest else RdData extra # rest),
               out := out w @ [OutTooLong]\<rparr>) \<and>
      query_recv w =
        Inr (Inl (ResponseTooLong v),
             w\<lparr>calls := calls w @ [ReadCall 4],
               rx := (if extra = [] then rest else RdData extra # rest),
               out := out w @ [OutTooLong]\<rparr>))"
proof (intro conjI impI; elim conjE)
  assume m: "length m = kMaxMsg" and rx: "rx w = RdData (spec_encodeFrame m @ extra) # rest"
  from m have le: "length m \<le> kMaxMsg" and ne: "m \<noteq> []"
    by (auto simp: kMaxMsg_def)
  show "one_request_recv w =
        Inr (Inr m, w\<lparr>calls := calls w @ [ReadCall 4, ReadCall kMaxMsg],
                       rx := (if extra = [] then rest else RdData extra # rest)\<rparr>)"
    using one_request_recv_frame [OF le rx] ne m by simp
  show "query_recv w =
        Inr (Inr m, w\<lparr>calls := calls w @ [ReadCall 4, ReadCall kMaxMsg],
                       rx := (if extra = [] then rest else RdData extra # rest)\<rparr>)"
    using query_recv_frame [OF le rx] ne m by simp
next
  assume v: "kMaxMsg < unat v" and rx: "rx w = RdData (le_bytes v @ extra) # rest"
  show "one_request w =
        Inr (Some (MessageTooLong v),
             w\<lparr>calls := calls w @ [ReadCall 4],
               rx := (if extra = [] then rest else RdData extra # rest),
               out := out w @ [OutTooLong]\<rparr>)"
    using one_request_recv_header [OF rx] v by (simp add: one_request_def)
  show "query_recv w =
        Inr (Inl (ResponseTooLong v),
             w\<lparr>calls := calls w @ [ReadCall 4],
               rx := (if extra = [] then rest else RdData extra # rest),
               out := out w @ [OutTooLong]\<rparr>)"
    using query_recv_header [OF rx] v by simp
qed

theorem length_boundary_witness:
  "one_request_recv
     \<lparr>rx = [RdData (spec_encodeFrame (replicate 4096 7))], wr = [], tx = [], calls = [], out = []\<rparr> =
     Inr (Inr (replicate 4096 7),
          \<lparr>rx = [], wr = [], tx = [], calls = [ReadCall 4, ReadCall 4096], out = []\<rparr>) \<and>
   one_request
     \<lparr>rx = [RdData (le_bytes 4097 @ replicate 4097 7)], wr = [], tx = [], calls = [], out = []\<rparr> =
     Inr (Some (MessageTooLong 4097),
          \<lparr>rx = [RdData (replicate 4097 7)], wr = [], tx = [], calls = [ReadCall 4],
             out = [OutTooLong]\<rparr>) \<and>
   query_recv
     \<lparr>rx = [RdData (le_bytes 4097 @ replicate 4097 7)], wr = [], tx = [], calls = [], out = []\<rparr> =
     Inr (Inl (ResponseTooLong 4097),
          \<lparr>rx = [RdData (replicate 4097 7)], wr = [], tx = [], calls = [ReadCall 4],
             out = [OutTooLong]\<rparr>)"
proof -
  have a: "length (replicate 4096 (7::byte)) = kMaxMsg \<and>
      rx \<lparr>rx = [RdData (spec_encodeFrame (replicate 4096 7))], wr = [], tx = [], calls = [], out = []\<rparr> =
      RdData (spec_encodeFrame (replicate 4096 7) @ []) # []"
    by (simp add: kMaxMsg_def)
  have b: "kMaxMsg < unat (4097 :: uint32) \<and>
      rx \<lparr>rx = [RdData (le_bytes 4097 @ replicate 4097 7)], wr = [], tx = [], calls = [], out = []\<rparr> =
      RdData (le_bytes 4097 @ replicate 4097 7) # []"
    by (simp add: kMaxMsg_def)
  show ?thesis
    using length_boundary [of "replicate 4096 7"
        "\<lparr>rx = [RdData (spec_encodeFrame (replicate 4096 7))], wr = [], tx = [], calls = [], out = []\<rparr>"
        "[]" "[]" 0, THEN conjunct1, rule_format, OF a]
      length_boundary [of "[]"
        "\<lparr>rx = [RdData (le_bytes 4097 @ replicate 4097 7)], wr = [], tx = [], calls = [], out = []\<rparr>"
        "replicate 4097 7" "[]" 4097, THEN conjunct2, rule_format, OF b]
    by (simp add: kMaxMsg_def)
qed

text \<open>
  C5. Premature close. When the stream holds a header that declares a length between 1
  and \<^verbatim>\<open>kMaxMsg\<close> and nothing more, the read of the body returns 0,
  \<^verbatim>\<open>read_full\<close> gives its end-of-stream error, and \<^verbatim>\<open>one_request\<close> prints and
  returns that error. In any round of its loop, \<^verbatim>\<open>read_full\<close> returns the
  end-of-stream error as soon as a read returns 0 bytes.
\<close>

theorem premature_close:
  "(0 < unat v \<and> unat v \<le> kMaxMsg \<and> rx w = [RdData (le_bytes v)] \<longrightarrow>
      one_request w =
        Inr (Some EOFError,
             w\<lparr>calls := calls w @ [ReadCall 4, ReadCall (unat v)], rx := [],
               out := out w @ [OutReadError EOFError]\<rparr>)) \<and>
   (0 < len \<and> reslice buf offset len = Inr s \<and> sys_read w' (slen s) = (Inr [], w1) \<longrightarrow>
      read_full_loop w' mem buf offset len = Inr (Some EOFError, mem, w1))"
  using one_request_body_eof [of v w] by simp

theorem premature_close_witness:
  "one_request \<lparr>rx = [RdData (le_bytes 10)], wr = [], tx = [], calls = [], out = []\<rparr> =
     Inr (Some EOFError,
          \<lparr>rx = [], wr = [], tx = [], calls = [ReadCall 4, ReadCall 10],
             out = [OutReadError EOFError]\<rparr>) \<and>
   read_full_loop \<lparr>rx = [], wr = [], tx = [], calls = [], out = []\<rparr> [0, 0, 0]
       \<lparr>base = 0, slen = 3, scap = 3\<rparr> 1 2 =
     Inr (Some EOFError, [0, 0, 0],
          \<lparr>rx = [], wr = [], tx = [], calls = [ReadCall 1], out = []\<rparr>)"
proof -
  note t = premature_close [of 10
      "\<lparr>rx = [RdData (le_bytes 10)], wr = [], tx = [], calls = [], out = []\<rparr>"
      2 "\<lparr>base = 0, slen = 3, scap = 3\<rparr>" 1 "\<lparr>base = 1, slen = 1, scap = 2\<rparr>"
      "\<lparr>rx = [], wr = [], tx = [], calls = [], out = []\<rparr>"
      "\<lparr>rx = [], wr = [], tx = [], calls = [ReadCall 1], out = []\<rparr>" "[0, 0, 0]"]
  have a: "0 < unat (10 :: uint32) \<and> unat (10 :: uint32) \<le> kMaxMsg \<and>
      rx \<lparr>rx = [RdData (le_bytes 10)], wr = [], tx = [], calls = [], out = []\<rparr> =
      [RdData (le_bytes 10)]"
    by (simp add: kMaxMsg_def)
  have b: "(0::int) < 2 \<and>
      reslice \<lparr>base = 0, slen = 3, scap = 3\<rparr> 1 2 = Inr \<lparr>base = 1, slen = 1, scap = 2\<rparr> \<and>
      sys_read \<lparr>rx = [], wr = [], tx = [], calls = [], out = []\<rparr>
        (slen \<lparr>base = 1, slen = 1, scap = 2\<rparr>) =
      (Inr [], \<lparr>rx = [], wr = [], tx = [], calls = [ReadCall 1], out = []\<rparr>)"
    by (simp add: reslice_def sys_read_def)
  show ?thesis
    using t [THEN conjunct1, rule_format, OF a] t [THEN conjunct2, rule_format, OF b]
    by simp
qed

text \<open>
  C6. \<^verbatim>\<open>query\<close> with a text longer than \<^verbatim>\<open>kMaxMsg\<close> returns the client's
  message-too-long error and leaves the world as it was: no system call is issued,
  nothing is sent and nothing is taken from the stream.
\<close>

theorem query_too_long:
  "kMaxMsg < length text' \<Longrightarrow> query w text' = Inr (Some RequestTooLong, w)"
  by (simp add: query_def query_send_def)

theorem query_too_long_witness:
  "kMaxMsg < length (replicate 4097 (0::byte)) \<and>
   query \<lparr>rx = [RdData [1]], wr = [], tx = [], calls = [], out = []\<rparr> (replicate 4097 0) =
     Inr (Some RequestTooLong, \<lparr>rx = [RdData [1]], wr = [], tx = [], calls = [], out = []\<rparr>)"
  using query_too_long [of "replicate 4097 0"
      "\<lparr>rx = [RdData [1]], wr = [], tx = [], calls = [], out = []\<rparr>"]
  by (simp add: kMaxMsg_def)

text \<open>
  C7. The empty message. \<^verbatim>\<open>read_full\<close> with a count of 0 returns \<^verbatim>\<open>nil\<close> and
  issues no system call. The frame of the empty message is four zero bytes; server and
  client decode it as the empty message, and the read of the header is the only read.
\<close>

theorem zero_length_frame:
  "read_full w mem buf 0 = Inr (None, mem, w) \<and>
   spec_encodeFrame [] = [0, 0, 0, 0] \<and>
   (rx w' = RdData (spec_encodeFrame [] @ extra) # rest \<longrightarrow>
      one_request_recv w' =
        Inr (Inr [], w'\<lparr>calls := calls w' @ [ReadCall 4],
                        rx := (if extra = [] then rest else RdData extra # rest)\<rparr>) \<and>
      query_recv w' =
        Inr (Inr [], w'\<lparr>calls := calls w' @ [ReadCall 4],
                        rx := (if extra = [] then rest else RdData extra # rest)\<rparr>))"
proof (intro conjI impI)
  show "read_full w mem buf 0 = Inr (None, mem, w)"
    by (simp add: read_full_nonpos)
  show "spec_encodeFrame [] = [0, 0, 0, 0]"
    by (simp add: spec_encodeFrame_def le_bytes_def)
next
  assume rx: "rx w' = RdData (spec_encodeFrame [] @ extra) # rest"
  have le: "length ([] :: byte list) \<le> kMaxMsg" by simp
  show "one_request_recv w' =
        Inr (Inr [], w'\<lparr>calls := calls w' @ [ReadCall 4],
                        rx := (if extra = [] then rest else RdData extra # rest)\<rparr>)"
    using one_request_recv_frame [OF le rx] by simp
  show "query_recv w' =
        Inr (Inr [], w'\<lparr>calls := calls w' @ [ReadCall 4],
                        rx := (if extra = [] then rest else RdData extra # rest)\<rparr>)"
    using query_recv_frame [OF le rx] by simp
qed

theorem zero_length_frame_witness:
  "read_full \<lparr>rx = [RdData [1]], wr = [], tx = [], calls = [], out = []\<rparr> [] 
      \<lparr>base = 0, slen = 0, scap = 0\<rparr> 0 =
     Inr (None, [], \<lparr>rx = [RdData [1]], wr = [], tx = [], calls = [], out = []\<rparr>) \<and>
   one_request_recv \<lparr>rx = [RdData [0, 0, 0, 0]], wr = [], tx = [], calls = [], out = []\<rparr> =
     Inr (Inr [], \<lparr>rx = [], wr = [], tx = [], calls = [ReadCall 4], out = []\<rparr>)"
proof -
  note z = zero_length_frame [of "\<lparr>rx = [RdData [1]], wr = [], tx = [], calls = [], out = []\<rparr>" "[]"
      "\<lparr>base = 0, slen = 0, scap = 0\<rparr>"
      "\<lparr>rx = [RdData [0, 0, 0, 0]], wr = [], tx = [], calls = [], out = []\<rparr>" "[]" "[]"]
  have e: "spec_encodeFrame [] = [0, 0, 0, 0]"
    using z by (rule conjunct1 [OF conjunct2])
  have r: "rx \<lparr>rx = [RdData [0, 0, 0, 0]], wr = [], tx = [], calls = [], out = []\<rparr> =
      RdData (spec_encodeFrame [] @ []) # []"
    by (simp add: e)
  show ?thesis
    using z [THEN conjunct1] z [THEN conjunct2, THEN conjunct2, rule_format, OF r]
    by simp
qed

text \<open>
  C8. End to end. The client runs \<^verbatim>\<open>query\<close> with \<^verbatim>\<open>PING\<close> and the server runs
  \<^verbatim>\<open>one_request\<close>, each finding in its stream what the other sent. The client sends
  the bytes 04 00 00 00 50 49 4E 47, the server prints \<^verbatim>\<open>PING\<close> as what the client
  says and sends 0D 00 00 00 followed by the 13 bytes of \<^verbatim>\<open>Hello world!!\<close>, and the
  client prints \<^verbatim>\<open>Hello world!!\<close> as what the server says. Both return \<^verbatim>\<open>nil\<close>.
\<close>

theorem ping_end_to_end:
  "\<exists>wc ws.
     query \<lparr>rx = [RdData (tx ws)], wr = [], tx = [], calls = [], out = []\<rparr> (bytes_of ''PING'') =
       Inr (None, wc) \<and>
     one_request \<lparr>rx = [RdData (tx wc)], wr = [], tx = [], calls = [], out = []\<rparr> =
       Inr (None, ws) \<and>
     tx wc = [0x04, 0, 0, 0, 0x50, 0x49, 0x4E, 0x47] \<and>
     out ws = [OutClientSays (bytes_of ''PING'')] \<and>
     tx ws = [0x0D, 0, 0, 0] @ bytes_of ''Hello world!!'' \<and>
     length (bytes_of ''Hello world!!'') = 13 \<and>
     out wc = [OutServerSays (bytes_of ''Hello world!!'')] \<and>
     rx wc = [] \<and> rx ws = []"
proof -
  let ?ping = "bytes_of ''PING''"
  let ?hello = "bytes_of ''Hello world!!''"
  let ?cli = "\<lparr>rx = [RdData (spec_encodeFrame ?hello)], wr = [], tx = [], calls = [], out = []\<rparr>"
  let ?srv = "\<lparr>rx = [RdData (spec_encodeFrame ?ping)], wr = [], tx = [], calls = [], out = []\<rparr>"
  let ?wc = "\<lparr>rx = [], wr = [], tx = spec_encodeFrame ?ping,
               calls = [WriteCall (spec_encodeFrame ?ping), ReadCall 4, ReadCall 13],
               out = [OutServerSays ?hello]\<rparr>"
  let ?ws = "\<lparr>rx = [], wr = [], tx = spec_encodeFrame ?hello,
               calls = [ReadCall 4, ReadCall 4, WriteCall (spec_encodeFrame ?hello)],
               out = [OutClientSays ?ping]\<rparr>"
  have lp: "length ?ping \<le> kMaxMsg" and lh: "length ?hello \<le> kMaxMsg"
    by (simp_all add: bytes_of_def kMaxMsg_def)
  have np: "?ping \<noteq> []" "length ?ping = 4" and nh: "?hello \<noteq> []" "length ?hello = 13"
    by (simp_all add: bytes_of_def)
  have q: "query ?cli ?ping = Inr (None, ?wc)"
    using query_whole [OF lp _ lh, of ?cli "[]" "[]"] np nh by simp
  have s: "one_request ?srv = Inr (None, ?ws)"
    using one_request_whole [OF lp, of ?srv "[]" "[]"] np by simp
  have fp: "spec_encodeFrame ?ping = [0x04, 0, 0, 0, 0x50, 0x49, 0x4E, 0x47]"
    by (rule ping_frame)
  have fh: "spec_encodeFrame ?hello = [0x0D, 0, 0, 0] @ ?hello"
    by (simp add: spec_encodeFrame_def nh le_bytes_def)
  show ?thesis
    apply (rule exI [of _ ?wc])
    apply (rule exI [of _ ?ws])
    using q s fp fh nh(2) by simp
qed

text \<open>
  C9. In the accept loop every connection whose \<^verbatim>\<open>one_request\<close> returns, with an
  error or without, contributes exactly the four events accept, call, return, close to
  the trace, in this order; the only endpoint left unclosed is the one whose exchange a
  panic cut short, and there is one only if the run ends in a panic. The client session
  closes its endpoint once, after \<^verbatim>\<open>query\<close> returns, whatever it returns.
\<close>

theorem endpoint_closed_once:
  "(accept_loop evs p = (fin, p') \<longrightarrow>
     (\<exists>errs. length errs \<le> length (accepted evs) \<and>
        trace p' = trace p @ concat (map exchange_trace (zip (accepted evs) errs)) @
                   cut_short fin (drop (length errs) (accepted evs)) \<and>
        (length errs = length (accepted evs)) = (\<forall>pn. fin \<noteq> Panicked pn))) \<and>
   (client_session c q = (cfin, q') \<longrightarrow>
     (\<exists>pn. cfin = Panicked pn \<and> trace q' = trace q @ [QueryCall (connfd c)]) \<or>
     (\<exists>err. cfin = Returned \<and>
        trace q' = trace q @ [QueryCall (connfd c), QueryReturn (connfd c) err,
                              SysClose (connfd c)]))"
  using accept_loop_trace [of evs p fin p'] client_session_trace [of c q cfin q']
  by blast

theorem endpoint_closed_once_witness:
  "(\<exists>errs. length errs = 2 \<and>
      accept_loop
        [Inr \<lparr>connfd = 4, conn_rx = [RdData (spec_encodeFrame (bytes_of ''PING''))], conn_wr = []\<rparr>,
         Inr \<lparr>connfd = 4, conn_rx = [], conn_wr = []\<rparr>,
         Inl 24]
        \<lparr>trace = [], stdout = []\<rparr> =
      (Returned,
       \<lparr>trace = concat (map exchange_trace (zip [4, 4] errs)),
          stdout = [OutAccepted, OutClientSays (bytes_of ''PING''), OutAccepted,
                    OutHeaderError EOFError, OutAcceptError 24]\<rparr>)) \<and>
   (\<exists>err. client_session
       \<lparr>connfd = 3, conn_rx = [RdData (spec_encodeFrame (bytes_of ''Hello world!!''))],
          conn_wr = []\<rparr>
       \<lparr>trace = [], stdout = []\<rparr> =
      (Returned,
       \<lparr>trace = [QueryCall 3, QueryReturn 3 err, SysClose 3],
          stdout = [OutServerSays (bytes_of ''Hello world!!''), OutConnectionClosed]\<rparr>))"
proof -
  let ?evs = "[Inr \<lparr>connfd = 4, conn_rx = [RdData (spec_encodeFrame (bytes_of ''PING''))], conn_wr = []\<rparr>,
         Inr \<lparr>connfd = 4, conn_rx = [], conn_wr = []\<rparr>,
         Inl 24]"
  let ?p = "\<lparr>trace = [], stdout = []\<rparr>"
  let ?c = "\<lparr>connfd = 3, conn_rx = [RdData (spec_encodeFrame (bytes_of ''Hello world!!''))],
          conn_wr = []\<rparr>"
  let ?sp = "\<lparr>trace = [SysAccept 4, OneRequestCall 4, OneRequestReturn 4 None, SysClose 4,
                  SysAccept 4, OneRequestCall 4, OneRequestReturn 4 (Some EOFError), SysClose 4],
          stdout = [OutAccepted, OutClientSays (bytes_of ''PING''), OutAccepted,
                    OutHeaderError EOFError, OutAcceptError 24]\<rparr>"
  let ?cp = "\<lparr>trace = [QueryCall 3, QueryReturn 3 None, SysClose 3],
          stdout = [OutServerSays (bytes_of ''Hello world!!''), OutConnectionClosed]\<rparr>"
  have lp: "length (bytes_of ''PING'') \<le> kMaxMsg"
    and lh: "length (bytes_of ''Hello world!!'') \<le> kMaxMsg"
    by (simp_all add: bytes_of_def kMaxMsg_def)
  have r1: "one_request \<lparr>rx = [RdData (spec_encodeFrame (bytes_of ''PING''))], wr = [], tx = [],
                calls = [], out = [OutAccepted]\<rparr> =
      Inr (None, \<lparr>rx = [], wr = [], tx = spec_encodeFrame (bytes_of ''Hello world!!''),
                calls = ReadCall 4 # (if bytes_of ''PING'' = [] then []
                                     else [ReadCall (length (bytes_of ''PING''))]) @
                        [WriteCall (spec_encodeFrame (bytes_of ''Hello world!!''))],
                out = [OutAccepted, OutClientSays (bytes_of ''PING'')]\<rparr>)"
    using one_request_whole [OF lp, of _ "[]" "[]"] by simp
  have s: "accept_loop ?evs ?p = (Returned, ?sp)"
    by (simp add: r1 one_request_closed_stream)
  have q1: "query \<lparr>rx = [RdData (spec_encodeFrame (bytes_of ''Hello world!!''))], wr = [], tx = [],
                calls = [], out = []\<rparr> (bytes_of ''PING'') =
      Inr (None, \<lparr>rx = [], wr = [], tx = spec_encodeFrame (bytes_of ''PING''),
                calls = WriteCall (spec_encodeFrame (bytes_of ''PING'')) # ReadCall 4 #
                  (if bytes_of ''Hello world!!'' = [] then []
                   else [ReadCall (length (bytes_of ''Hello world!!''))]),
                out = [OutServerSays (bytes_of ''Hello world!!'')]\<rparr>)"
    using query_whole [OF lp _ lh, of _ "[]" "[]"] by simp
  have c: "client_session ?c ?p = (Returned, ?cp)"
    by (simp add: client_session_def q1)
  note t = endpoint_closed_once [of ?evs ?p Returned ?sp ?c ?p Returned ?cp]
  from t [THEN conjunct1, rule_format, OF s] obtain errs where
    e: "trace ?sp = trace ?p @ concat (map exchange_trace (zip (accepted ?evs) errs)) @
          cut_short Returned (drop (length errs) (accepted ?evs))"
       "(length errs = length (accepted ?evs)) = (\<forall>pn. Returned \<noteq> Panicked pn)"
    by blast
  from t [THEN conjunct2, rule_format, OF c] obtain err where
    f: "trace ?cp = trace ?p @ [QueryCall (connfd ?c), QueryReturn (connfd ?c) err, SysClose (connfd ?c)]"
    by auto
  have n: "length errs = 2" using e(2) by simp
  have tr: "concat (map exchange_trace (zip [4, 4] errs)) = trace ?sp"
    using e(1) by simp
  have s': "accept_loop ?evs ?p =
      (Returned,
       \<lparr>trace = concat (map exchange_trace (zip [4, 4] errs)),
          stdout = [OutAccepted, OutClientSays (bytes_of ''PING''), OutAccepted,
                    OutHeaderError EOFError, OutAcceptError 24]\<rparr>)"
    unfolding tr using s by simp
  have c': "client_session ?c ?p =
      (Returned,
       \<lparr>trace = [QueryCall 3, QueryReturn 3 err, SysClose 3],
          stdout = [OutServerSays (bytes_of ''Hello world!!''), OutConnectionClosed]\<rparr>)"
    using c f by simp
  show ?thesis
    using n s' c' by blast
qed

text \<open>
  C10. \<^verbatim>\<open>read_full\<close> and \<^verbatim>\<open>write_full\<close> are to be safe for every count and
  every way the kernel splits the bytes. They are not: reading three bytes into a buffer
  of three, with one byte arriving at a time, the third slice is \<^verbatim>\<open>buf[2:1]\<close> and
  the runtime panics; writing five bytes with a kernel that takes two at a time, the
  third slice is \<^verbatim>\<open>buf[3:2]\<close> and the runtime panics.
\<close>

theorem read_full_partial_read_panics:
  "read_full \<lparr>rx = [RdData [1], RdData [2], RdData [3]], wr = [], tx = [], calls = [], out = []\<rparr>
     [0, 0, 0] \<lparr>base = 0, slen = 3, scap = 3\<rparr> 3 = Inl SliceBoundsOutOfRange \<and>
   write_full \<lparr>rx = [], wr = [WrTake 2, WrTake 2], tx = [], calls = [], out = []\<rparr>
     [1, 2, 3, 4, 5] \<lparr>base = 0, slen = 5, scap = 5\<rparr> = Inl SliceBoundsOutOfRange"
  by (simp add: read_full_def write_full_def reslice_def sys_read_def sys_write_def
      mem_write_def mem_read_def)

section \<open>What the loops need to succeed\<close>

text \<open>
  \<^verbatim>\<open>read_full\<close> returns \<^verbatim>\<open>nil\<close> only when the count is not positive, or when its
  first read delivers all the bytes asked for: a read that delivers fewer is never made
  up for by the reads that follow.
\<close>

theorem read_full_nil_needs_whole_first_read:
  assumes "read_full w mem buf len = Inr (None, mem', w')"
  shows "len \<le> 0 \<and> mem' = mem \<and> w' = w \<or>
         (\<exists>bs. sys_read w (nat len) = (Inr bs, w') \<and> int (length bs) = len \<and>
               mem' = mem_write mem buf bs)"
proof (cases "len \<le> 0")
  case True
  with assms show ?thesis by (simp add: read_full_def)
next
  case False
  then have pos: "0 < len" by simp
  show ?thesis
  proof (cases "reslice buf 0 len")
    case (Inl p)
    with assms pos show ?thesis by (simp add: read_full_def)
  next
    case (Inr s)
    then have s: "slen s = nat len" "base s = base buf"
      by (auto simp: reslice_def split: if_splits)
    obtain r w1 where rd: "sys_read w (nat len) = (r, w1)" by (cases "sys_read w (nat len)")
    show ?thesis
    proof (cases r)
      case (Inl e)
      with assms pos Inr rd s show ?thesis by (simp add: read_full_def)
    next
      case r: (Inr bs)
      have ne: "bs \<noteq> []"
        using assms pos Inr rd s r by (auto simp: read_full_def)
      from sys_read_length [OF rd [unfolded r]] pos
      have le: "int (length bs) \<le> len" by simp
      have rec: "read_full_loop w1 (mem_write mem s bs) buf (int (length bs))
                    (len - int (length bs)) = Inr (None, mem', w')"
        using assms pos Inr rd s r ne by (simp add: read_full_def)
      have "\<not> 0 < len - int (length bs)"
        using read_full_loop_stuck [of "int (length bs)" "len - int (length bs)" w1
            "mem_write mem s bs" buf mem' w'] rec ne by auto
      with le have eq: "int (length bs) = len" by simp
      with rec have "mem' = mem_write mem s bs" "w' = w1" by simp_all
      with eq rd r s show ?thesis by (simp add: mem_write_def)
    qed
  qed
qed

theorem read_full_nil_needs_whole_first_read_witness:
  "\<exists>bs. sys_read \<lparr>rx = [RdData [1, 2, 3, 4, 5]], wr = [], tx = [], calls = [], out = []\<rparr> 4 =
          (Inr bs, \<lparr>rx = [RdData [5]], wr = [], tx = [], calls = [ReadCall 4], out = []\<rparr>) \<and>
        int (length bs) = 4 \<and>
        [1, 2, 3, 4] = mem_write [0, 0, 0, 0] \<lparr>base = 0, slen = 4, scap = 4\<rparr> bs"
proof -
  have "read_full \<lparr>rx = [RdData [1, 2, 3, 4, 5]], wr = [], tx = [], calls = [], out = []\<rparr>
          [0, 0, 0, 0] \<lparr>base = 0, slen = 4, scap = 4\<rparr> 4 =
        Inr (None, [1, 2, 3, 4],
             \<lparr>rx = [RdData [5]], wr = [], tx = [], calls = [ReadCall 4], out = []\<rparr>)"
    by (simp add: read_full_def reslice_def sys_read_def mem_write_def)
  from read_full_nil_needs_whole_first_read [OF this] show ?thesis
    by simp
qed

text \<open>
  \<^verbatim>\<open>write_full\<close> returns \<^verbatim>\<open>nil\<close> only when the buffer is empty, or when its first
  write takes the whole buffer.
\<close>

theorem write_full_nil_needs_whole_first_write:
  assumes "write_full w mem buf = Inr (None, w')"
  shows "slen buf = 0 \<and> w' = w \<or>
         sys_write w (mem_read mem buf) = (Inr (slen buf), w')"
proof (cases "slen buf = 0")
  case True
  with assms show ?thesis by (simp add: write_full_def)
next
  case False
  then have pos: "0 < int (slen buf)" by simp
  show ?thesis
  proof (cases "reslice buf 0 (int (slen buf))")
    case (Inl p)
    with assms pos show ?thesis by (simp add: write_full_def)
  next
    case (Inr s)
    then have s: "mem_read mem s = mem_read mem buf"
      by (auto simp: reslice_def mem_read_def split: if_splits)
    obtain r w1 where wr: "sys_write w (mem_read mem buf) = (r, w1)"
      by (cases "sys_write w (mem_read mem buf)")
    show ?thesis
    proof (cases r)
      case (Inl e)
      with assms pos Inr wr s show ?thesis by (simp add: write_full_def)
    next
      case r: (Inr n)
      have ne: "n \<noteq> 0"
        using assms pos Inr wr s r by (auto simp: write_full_def split: if_splits)
      have "n \<le> length (mem_read mem buf)"
        using sys_write_count [OF wr [unfolded r]] .
      also have "\<dots> \<le> slen buf" by (simp add: mem_read_def)
      finally have le: "n \<le> slen buf" .
      have rec: "write_full_loop w1 mem buf (int n) (int (slen buf) - int n) = Inr (None, w')"
        using assms pos Inr wr s r ne by (simp add: write_full_def)
      have "\<not> 0 < int (slen buf) - int n"
        using write_full_loop_stuck [of "int n" "int (slen buf) - int n" w1 mem buf w'] rec ne
        by auto
      with le have eq: "n = slen buf" by simp
      with rec have "w' = w1" by simp
      with eq wr r show ?thesis by simp
    qed
  qed
qed

theorem write_full_nil_needs_whole_first_write_witness:
  "sys_write \<lparr>rx = [], wr = [WrTake 9], tx = [], calls = [], out = []\<rparr>
     (mem_read [7, 8, 9] \<lparr>base = 0, slen = 3, scap = 3\<rparr>) =
   (Inr 3, \<lparr>rx = [], wr = [], tx = [7, 8, 9], calls = [WriteCall [7, 8, 9]], out = []\<rparr>)"
proof -
  have "write_full \<lparr>rx = [], wr = [WrTake 9], tx = [], calls = [], out = []\<rparr>
          [7, 8, 9] \<lparr>base = 0, slen = 3, scap = 3\<rparr> =
        Inr (None, \<lparr>rx = [], wr = [], tx = [7, 8, 9], calls = [WriteCall [7, 8, 9]], out = []\<rparr>)"
    by (simp add: write_full_def reslice_def sys_write_def mem_read_def)
  from write_full_nil_needs_whole_first_write [OF this] show ?thesis
    by simp
qed

end
